theory Spec2Isabelle
  imports Main "HOL-Library.Char_ord" "HOL-Library.List_Lexorder" "HOL-Library.Word"
begin

section \<open>Package probe (internal/probe/http.go)\<close>

subsection \<open>The standard-library functions the package calls\<close>

text \<open>
  A Go string is a sequence of bytes; it is modelled as \<^typ>\<open>string\<close>, a list of
  8-bit characters. A Go \<open>error\<close> is modelled by its message, and a nil error by
  \<^term>\<open>None\<close>.
\<close>

type_synonym error = string

definition CRLF :: string where
  "CRLF = [CHR 0x0D, CHR 0x0A]"

text \<open>\<open>strings.HasPrefix\<close>: \<open>len(s) >= len(prefix) && s[:len(prefix)] == prefix\<close>.\<close>

definition HasPrefix :: "string \<Rightarrow> string \<Rightarrow> bool" where
  "HasPrefix s pre = (length pre \<le> length s \<and> take (length pre) s = pre)"

text \<open>
  \<open>strings.ToUpper\<close>. Every byte \<open>'a'..'z'\<close> is replaced by \<open>c - ('a' - 'A')\<close> and
  every other ASCII byte is kept. Bytes from \<open>0x80\<close> on are kept as they are here, where
  Go maps the runes they encode through the Unicode case tables; no rune outside ASCII
  has \<open>H\<close>, \<open>T\<close>, \<open>P\<close> or \<open>/\<close> as its upper case, so the test for the prefix \<open>HTTP/\<close>
  below is the same.
\<close>

definition ToUpperByte :: "char \<Rightarrow> char" where
  "ToUpperByte c =
     (let n = (of_char c :: nat) in if 97 \<le> n \<and> n \<le> 122 then char_of (n - 32) else c)"

definition ToUpper :: "string \<Rightarrow> string" where
  "ToUpper s = map ToUpperByte s"

text \<open>
  \<open>unicode.IsSpace\<close> holds of \<open>'\t'\<close>, \<open>'\n'\<close>, \<open>'\v'\<close>, \<open>'\f'\<close>, \<open>'\r'\<close>, \<open>' '\<close>, U+0085,
  U+00A0, U+1680, U+2000 to U+200A, U+2028, U+2029, U+202F, U+205F and U+3000. The list
  holds the UTF-8 encoding of each of them.
\<close>

definition whiteSpace :: "string list" where
  "whiteSpace =
     [[CHR 0x09], [CHR 0x0A], [CHR 0x0B], [CHR 0x0C], [CHR 0x0D], [CHR 0x20],
      [CHR 0xC2, CHR 0x85], [CHR 0xC2, CHR 0xA0],
      [CHR 0xE1, CHR 0x9A, CHR 0x80],
      [CHR 0xE2, CHR 0x80, CHR 0x80], [CHR 0xE2, CHR 0x80, CHR 0x81],
      [CHR 0xE2, CHR 0x80, CHR 0x82], [CHR 0xE2, CHR 0x80, CHR 0x83],
      [CHR 0xE2, CHR 0x80, CHR 0x84], [CHR 0xE2, CHR 0x80, CHR 0x85],
      [CHR 0xE2, CHR 0x80, CHR 0x86], [CHR 0xE2, CHR 0x80, CHR 0x87],
      [CHR 0xE2, CHR 0x80, CHR 0x88], [CHR 0xE2, CHR 0x80, CHR 0x89],
      [CHR 0xE2, CHR 0x80, CHR 0x8A],
      [CHR 0xE2, CHR 0x80, CHR 0xA8], [CHR 0xE2, CHR 0x80, CHR 0xA9],
      [CHR 0xE2, CHR 0x80, CHR 0xAF], [CHR 0xE2, CHR 0x81, CHR 0x9F],
      [CHR 0xE3, CHR 0x80, CHR 0x80]]"

text \<open>
  \<open>strings.TrimSpace\<close> removes the white-space runes at the front, decoding forwards,
  and then those at the back, decoding backwards. A rune decodes to white space exactly
  when the bytes met are one of the encodings above, so the front loop drops a leading
  encoding for as long as there is one and the back loop a trailing one.
\<close>

definition leadingSpace :: "string \<Rightarrow> string option" where
  "leadingSpace s = find (\<lambda>w. HasPrefix s w) whiteSpace"

definition trailingSpace :: "string \<Rightarrow> string option" where
  "trailingSpace s = find (\<lambda>w. HasPrefix (rev s) (rev w)) whiteSpace"

lemma whiteSpace_nonempty: "w \<in> set whiteSpace \<Longrightarrow> w \<noteq> []"
  by (auto simp: whiteSpace_def)

lemma find_SomeD: "find P xs = Some x \<Longrightarrow> x \<in> set xs \<and> P x"
  by (induction xs) (auto split: if_splits)

lemma leadingSpace_shorter:
  assumes "leadingSpace s = Some w"
  shows "length (drop (length w) s) < length s"
proof -
  from assms have "w \<in> set whiteSpace" and "HasPrefix s w"
    by (auto simp: leadingSpace_def dest: find_SomeD)
  then have "0 < length w" and "length w \<le> length s"
    using whiteSpace_nonempty by (auto simp: HasPrefix_def)
  then show ?thesis by (cases w) auto
qed

lemma trailingSpace_shorter:
  assumes "trailingSpace s = Some w"
  shows "length (take (length s - length w) s) < length s"
proof -
  from assms have "w \<in> set whiteSpace" and "HasPrefix (rev s) (rev w)"
    by (auto simp: trailingSpace_def dest: find_SomeD)
  then have "0 < length w" and "length w \<le> length s"
    using whiteSpace_nonempty by (auto simp: HasPrefix_def)
  then show ?thesis by (cases w) auto
qed

function TrimLeft :: "string \<Rightarrow> string" where
  "TrimLeft s =
     (case leadingSpace s of
        None \<Rightarrow> s
      | Some w \<Rightarrow> TrimLeft (drop (length w) s))"
  by pat_completeness auto
termination
  by (relation "measure length") (auto dest: leadingSpace_shorter)

function TrimRight :: "string \<Rightarrow> string" where
  "TrimRight s =
     (case trailingSpace s of
        None \<Rightarrow> s
      | Some w \<Rightarrow> TrimRight (take (length s - length w) s))"
  by pat_completeness auto
termination
  by (relation "measure length") (auto dest: trailingSpace_shorter)

declare TrimLeft.simps [simp del] TrimRight.simps [simp del]

definition TrimSpace :: "string \<Rightarrow> string" where
  "TrimSpace s = TrimRight (TrimLeft s)"

text \<open>
  The strings that start with \<open>HTTP/\<close> up to the case of the letters, and the runs of
  white space: the concatenations of encodings of white-space runes.
\<close>

definition starts_HTTP :: "string \<Rightarrow> bool" where
  "starts_HTTP s =
     (\<exists>h t u p rest. s = h # t # u # p # CHR ''/'' # rest
        \<and> (h = CHR ''H'' \<or> h = CHR ''h'') \<and> (t = CHR ''T'' \<or> t = CHR ''t'')
        \<and> (u = CHR ''T'' \<or> u = CHR ''t'') \<and> (p = CHR ''P'' \<or> p = CHR ''p''))"

definition white_run :: "string \<Rightarrow> bool" where
  "white_run ws = (\<exists>wl. set wl \<subseteq> set whiteSpace \<and> ws = concat wl)"

text \<open>
  \<open>strconv.Itoa\<close>: the decimal digits of the number, after a minus sign when it is
  negative.
\<close>

function digits :: "nat \<Rightarrow> string" where
  "digits n =
     (if n < 10 then [char_of (48 + n)]
      else digits (n div 10) @ [char_of (48 + n mod 10)])"
  by pat_completeness auto
termination
  by (relation "measure id") auto

declare digits.simps [simp del]

definition Itoa :: "int \<Rightarrow> string" where
  "Itoa i = (if i < 0 then CHR ''-'' # digits (nat (- i)) else digits (nat i))"

text \<open>\<open>net.JoinHostPort\<close>: a host with a colon in it is an IPv6 literal and gets brackets.\<close>

definition JoinHostPort :: "string \<Rightarrow> string \<Rightarrow> string" where
  "JoinHostPort host port =
     (if CHR '':'' \<in> set host then ''['' @ host @ '']:'' @ port
      else host @ '':'' @ port)"

text \<open>
  The network is what the package talks to. A connection answers \<open>conn.Write\<close> with an
  error or nil, and \<open>stream\<close> gives the bytes that arrive on it, after the bytes written,
  until the peer closes it or the deadline of 500 ms set by \<open>SetDeadline\<close> passes;
  \<open>stream_end\<close> is the error the reader meets after them. \<open>net.DialTimeout\<close> returns a
  connection or an error for an address.
\<close>

record conn =
  Write :: "string \<Rightarrow> error option"
  stream :: "string \<Rightarrow> string"
  stream_end :: error

type_synonym network = "string \<Rightarrow> error + conn"

definition DialTimeout :: "network \<Rightarrow> string \<Rightarrow> error + conn" where
  "DialTimeout nw addr = nw addr"

text \<open>
  \<open>bufio.Reader.ReadString(delim)\<close> returns the bytes up to and including the first
  \<open>delim\<close>; when the stream ends before a \<open>delim\<close> it returns the bytes read and the
  error.
\<close>

definition ReadString :: "string \<Rightarrow> error \<Rightarrow> char \<Rightarrow> string \<times> error option" where
  "ReadString bytes e delim =
     (if delim \<in> set bytes then (takeWhile (\<lambda>c. c \<noteq> delim) bytes @ [delim], None)
      else (bytes, Some e))"

subsection \<open>IsHTTP and Probe\<close>

definition IsHTTP :: "network \<Rightarrow> string \<Rightarrow> int \<Rightarrow> bool" where
  "IsHTTP nw host port =
     (let addr = JoinHostPort host (Itoa port) in
      case DialTimeout nw addr of
        Inl err \<Rightarrow> False
      | Inr c \<Rightarrow>
          (let request = ''GET / HTTP/1.0'' @ CRLF @ CRLF in
           case Write c request of
             Some err \<Rightarrow> False
           | None \<Rightarrow>
               (case ReadString (stream c request) (stream_end c) (CHR 0x0A) of
                  (line, Some err) \<Rightarrow> False
                | (line, None) \<Rightarrow> HasPrefix (ToUpper (TrimSpace line)) ''HTTP/'')))"

record ProbeResult =
  pr_IsHTTP :: bool
  pr_Response :: string

definition Probe :: "network \<Rightarrow> string \<Rightarrow> int \<Rightarrow> ProbeResult" where
  "Probe nw host port =
     (let addr = JoinHostPort host (Itoa port) in
      case DialTimeout nw addr of
        Inl err \<Rightarrow> \<lparr>pr_IsHTTP = False, pr_Response = []\<rparr>
      | Inr c \<Rightarrow>
          (let request = ''GET / HTTP/1.0'' @ CRLF @ ''Host: localhost'' @ CRLF @ CRLF in
           case Write c request of
             Some err \<Rightarrow> \<lparr>pr_IsHTTP = False, pr_Response = []\<rparr>
           | None \<Rightarrow>
               (case ReadString (stream c request) (stream_end c) (CHR 0x0A) of
                  (line, Some err) \<Rightarrow> \<lparr>pr_IsHTTP = False, pr_Response = []\<rparr>
                | (line, None) \<Rightarrow>
                    (let response = TrimSpace line;
                         isHTTP = HasPrefix (ToUpper response) ''HTTP/''
                     in \<lparr>pr_IsHTTP = isHTTP, pr_Response = response\<rparr>))))"

text \<open>The two requests, and a server for the examples: it answers any request with the
  bytes given and then closes the connection.\<close>

definition IsHTTP_request :: string where
  "IsHTTP_request = ''GET / HTTP/1.0'' @ CRLF @ CRLF"

definition Probe_request :: string where
  "Probe_request = ''GET / HTTP/1.0'' @ CRLF @ ''Host: localhost'' @ CRLF @ CRLF"

definition server :: "string \<Rightarrow> conn" where
  "server bytes = \<lparr>Write = (\<lambda>_. None), stream = (\<lambda>_. bytes), stream_end = ''EOF''\<rparr>"

definition serving :: "string \<Rightarrow> network" where
  "serving bytes = (\<lambda>addr. Inr (server bytes))"

definition refusing :: network where
  "refusing = (\<lambda>addr. Inl ''connection refused'')"

definition broken :: conn where
  "broken = \<lparr>Write = (\<lambda>_. Some ''broken pipe''), stream = (\<lambda>_. []), stream_end = ''EOF''\<rparr>"

section \<open>Domain policy (internal/tls/policy)\<close>

text \<open>
  Modelled from the spec: the package \<open>internal/tls/policy\<close> is named by the design
  document (section 14) and is not among the source files; \<open>validate\<close> below follows
  section 4.1 of the specification, "Rules, evaluated in order", rules 1 to 5, and
  section 5 of the design document. The embedded IANA list of top-level domains is a
  build-time asset that is not in the sources either: it is the parameter \<open>blocklist\<close>,
  the domains in lower case.

  The specification names the kinds \<open>WildcardPosition\<close>, \<open>WildcardTooShallow\<close>,
  \<open>TldNotAllowed\<close> and \<open>TldPublic\<close>; it gives no name for a name that does not parse
  (rule 1), called \<open>InvalidName\<close> here, nor for an address outside the ranges of rule 6,
  called \<open>IpNotAllowed\<close>.
\<close>

datatype reject =
    InvalidName | WildcardPosition | WildcardTooShallow | TldNotAllowed | TldPublic
  | IpNotAllowed


text \<open>The labels of a name: the pieces between its dots.\<close>

fun split_dots :: "string \<Rightarrow> string list" where
  "split_dots [] = [[]]"
| "split_dots (c # cs) =
     (if c = CHR ''.'' then [] # split_dots cs
      else (case split_dots cs of
              [] \<Rightarrow> [[c]]
            | l # ls \<Rightarrow> (c # l) # ls))"

text \<open>"a single trailing root dot which is stripped"\<close>

definition strip_root_dot :: "string \<Rightarrow> string" where
  "strip_root_dot s = (if s \<noteq> [] \<and> last s = CHR ''.'' then butlast s else s)"

definition labels_of :: "string \<Rightarrow> string list" where
  "labels_of name = split_dots (strip_root_dot name)"


text \<open>
  An LDH label (RFC 5890, 2.3.1): ASCII letters, digits and hyphens, no hyphen at either
  end, not empty. The label \<open>*\<close> passes rule 1 too, since rules 2 and 3 are about it.
\<close>

definition is_ldh_char :: "char \<Rightarrow> bool" where
  "is_ldh_char c =
     (let n = (of_char c :: nat)
      in (97 \<le> n \<and> n \<le> 122) \<or> (65 \<le> n \<and> n \<le> 90) \<or> (48 \<le> n \<and> n \<le> 57) \<or> c = CHR ''-'')"

definition is_ldh_label :: "string \<Rightarrow> bool" where
  "is_ldh_label l =
     (l \<noteq> [] \<and> list_all is_ldh_char l \<and> hd l \<noteq> CHR ''-'' \<and> last l \<noteq> CHR ''-'')"

definition label_ok :: "string \<Rightarrow> bool" where
  "label_ok l = ((l = ''*'' \<or> is_ldh_label l) \<and> length l \<le> 63)"

text \<open>Rule 1: LDH labels, at most 253 octets, labels of at most 63, no empty label.\<close>

definition parse_name :: "string \<Rightarrow> string list option" where
  "parse_name name =
     (let s = strip_root_dot name; ls = split_dots s
      in if length s \<le> 253 \<and> list_all label_ok ls then Some ls else None)"









text \<open>
  Rule 6, for addresses, given by their octets (4 or 16): loopback (\<open>127.0.0.0/8\<close>,
  \<open>::1\<close>), RFC 1918 (\<open>10/8\<close>, \<open>172.16/12\<close>, \<open>192.168/16\<close>) and unique local addresses
  (\<open>fc00::/7\<close>).
\<close>

type_synonym ip = "nat list"



section \<open>Leaf issuance (internal/tls/issuer)\<close>

text \<open>
  Modelled from the spec: the package \<open>internal/tls/issuer\<close> is not among the source
  files; the design document gives its interface (\<open>IssueRequest\<close>, \<open>Certificate\<close>,
  \<open>Issuer\<close>), and \<open>issue\<close> and \<open>ensure\<close> below follow sections 3, 4.3 and 6 of the
  specification. Times are seconds. The certificate authority is the parameter
  \<open>sign_leaf\<close>, which returns the PEM of the signed leaf and of the intermediate; the
  fresh leaf key and the 128 random bits of the serial come in with each call, and the
  serial is those bits with the high bit cleared.
\<close>

datatype san = DNS string | IP ip












datatype issuer_error = PolicyViolation san reject | NotFound












section \<open>Properties of the domain policy\<close>

lemma parse_name_labels: "parse_name N = Some ls \<Longrightarrow> ls = labels_of N"
  by (auto simp: parse_name_def labels_of_def Let_def split: if_splits)

















section \<open>Properties of the probe\<close>

lemma ToUpperByte_cases:
  "ToUpperByte c = u \<longleftrightarrow>
     (if 97 \<le> (of_char c :: nat) \<and> (of_char c :: nat) \<le> 122
      then (of_char u :: nat) + 32 = of_char c else c = u)"
proof (cases "97 \<le> (of_char c :: nat) \<and> (of_char c :: nat) \<le> 122")
  case True
  then have "(of_char c - 32 :: nat) < 2 ^ 8"
    by auto
  then have small: "take_bit 8 (of_char c - 32 :: nat) = of_char c - 32"
    by (simp only: take_bit_nat_eq_self_iff)
  have "ToUpperByte c = char_of (of_char c - 32 :: nat)"
    using True by (simp add: ToUpperByte_def)
  then have "ToUpperByte c = u \<longleftrightarrow> (of_char c - 32 :: nat) = of_char u"
    by (simp add: char_of_eq_iff small)
  with True show ?thesis by auto
next
  case False
  then show ?thesis by (auto simp: ToUpperByte_def)
qed

lemma of_char_eq_iff_char: "(of_char c :: nat) = n \<longleftrightarrow> n < 256 \<and> c = char_of n"
proof
  assume "(of_char c :: nat) = n"
  then show "n < 256 \<and> c = char_of n" by auto
next
  assume "n < 256 \<and> c = char_of n"
  then show "(of_char c :: nat) = n" by (simp add: take_bit_nat_eq_self_iff)
qed

lemma ToUpperByte_H: "ToUpperByte c = CHR ''H'' \<longleftrightarrow> c = CHR ''H'' \<or> c = CHR ''h''"
proof -
  have h: "char_of (104 :: nat) = CHR ''h''" by (simp add: char_of_eq_iff)
  have "(104 :: nat) = of_char c \<longleftrightarrow> c = CHR ''h''"
    using of_char_eq_iff_char [of c 104] h by auto
  moreover have "c = CHR ''H'' \<Longrightarrow> \<not> (97 \<le> (of_char c :: nat))" by simp
  ultimately show ?thesis
    unfolding ToUpperByte_cases by auto
qed

lemma ToUpperByte_T: "ToUpperByte c = CHR ''T'' \<longleftrightarrow> c = CHR ''T'' \<or> c = CHR ''t''"
proof -
  have h: "char_of (116 :: nat) = CHR ''t''" by (simp add: char_of_eq_iff)
  have "(116 :: nat) = of_char c \<longleftrightarrow> c = CHR ''t''"
    using of_char_eq_iff_char [of c 116] h by auto
  moreover have "c = CHR ''T'' \<Longrightarrow> \<not> (97 \<le> (of_char c :: nat))" by simp
  ultimately show ?thesis
    unfolding ToUpperByte_cases by auto
qed

lemma ToUpperByte_P: "ToUpperByte c = CHR ''P'' \<longleftrightarrow> c = CHR ''P'' \<or> c = CHR ''p''"
proof -
  have h: "char_of (112 :: nat) = CHR ''p''" by (simp add: char_of_eq_iff)
  have "(112 :: nat) = of_char c \<longleftrightarrow> c = CHR ''p''"
    using of_char_eq_iff_char [of c 112] h by auto
  moreover have "c = CHR ''P'' \<Longrightarrow> \<not> (97 \<le> (of_char c :: nat))" by simp
  ultimately show ?thesis
    unfolding ToUpperByte_cases by auto
qed

lemma ToUpperByte_slash: "ToUpperByte c = CHR ''/'' \<longleftrightarrow> c = CHR ''/''"
  unfolding ToUpperByte_cases by auto

lemma HasPrefix_Cons: "HasPrefix (x # xs) (y # ys) \<longleftrightarrow> x = y \<and> HasPrefix xs ys"
  by (auto simp: HasPrefix_def)

lemma HasPrefix_Nil: "HasPrefix [] (y # ys) = False" "HasPrefix xs [] = True"
  by (auto simp: HasPrefix_def)

lemma HasPrefix_ToUpper_HTTP:
  "HasPrefix (ToUpper s) ''HTTP/'' \<longleftrightarrow>
     (\<exists>h t u p rest. s = h # t # u # p # CHR ''/'' # rest
        \<and> (h = CHR ''H'' \<or> h = CHR ''h'') \<and> (t = CHR ''T'' \<or> t = CHR ''t'')
        \<and> (u = CHR ''T'' \<or> u = CHR ''t'') \<and> (p = CHR ''P'' \<or> p = CHR ''p''))"
  (is "?l = ?r")
proof
  assume ?l
  then obtain h t u p e rest where s: "s = h # t # u # p # e # rest"
    by (cases s; cases "tl s"; cases "tl (tl s)"; cases "tl (tl (tl s))";
        cases "tl (tl (tl (tl s)))") (auto simp: ToUpper_def HasPrefix_Nil HasPrefix_Cons)
  with \<open>?l\<close> show ?r
    by (simp add: ToUpper_def HasPrefix_Cons HasPrefix_Nil ToUpperByte_H ToUpperByte_T
        ToUpperByte_P ToUpperByte_slash)
next
  assume ?r
  then obtain h t u p rest where s: "s = h # t # u # p # CHR ''/'' # rest"
    and l: "h = CHR ''H'' \<or> h = CHR ''h''" "t = CHR ''T'' \<or> t = CHR ''t''"
      "u = CHR ''T'' \<or> u = CHR ''t''" "p = CHR ''P'' \<or> p = CHR ''p''"
    by blast
  from l show ?l
    unfolding s
    by (simp add: ToUpper_def HasPrefix_Cons HasPrefix_Nil ToUpperByte_H ToUpperByte_T
        ToUpperByte_P ToUpperByte_slash)
qed

lemma leadingSpace_append_all:
  "list_all (\<lambda>w. leadingSpace (w @ s) = Some w) whiteSpace"
  unfolding leadingSpace_def whiteSpace_def
  by (simp add: HasPrefix_Cons HasPrefix_Nil)

lemma leadingSpace_append: "w \<in> set whiteSpace \<Longrightarrow> leadingSpace (w @ s) = Some w"
  using leadingSpace_append_all [of s] by (simp add: list_all_iff)

lemma whiteSpace_first_byte:
  "list_all (\<lambda>w. \<forall>c cs. w = c # cs \<longrightarrow>
      c \<noteq> CHR ''H'' \<and> c \<noteq> CHR ''h'' \<and> c \<noteq> CHR ''T'' \<and> c \<noteq> CHR ''t''
      \<and> c \<noteq> CHR ''P'' \<and> c \<noteq> CHR ''p'' \<and> c \<noteq> CHR ''/'') whiteSpace"
  unfolding whiteSpace_def by simp

lemma leadingSpace_mem:
  "leadingSpace s = Some w \<Longrightarrow> w \<in> set whiteSpace \<and> s = w @ drop (length w) s"
proof -
  assume "leadingSpace s = Some w"
  then have "w \<in> set whiteSpace" and "HasPrefix s w"
    by (auto simp: leadingSpace_def dest: find_SomeD)
  then show ?thesis
    by (metis HasPrefix_def append_take_drop_id)
qed

lemma trailingSpace_mem:
  "trailingSpace s = Some w \<Longrightarrow>
     w \<in> set whiteSpace \<and> s = take (length s - length w) s @ w"
proof -
  assume "trailingSpace s = Some w"
  then have w: "w \<in> set whiteSpace" and p: "HasPrefix (rev s) (rev w)"
    by (auto simp: trailingSpace_def dest: find_SomeD)
  from p have "length w \<le> length s" and "take (length w) (rev s) = rev w"
    by (auto simp: HasPrefix_def)
  then have "rev (drop (length s - length w) s) = rev w"
    by (simp add: take_rev)
  then have "drop (length s - length w) s = w"
    by simp
  then have "s = take (length s - length w) s @ w"
    by (metis append_take_drop_id)
  with w show ?thesis by simp
qed

lemma TrimLeft_white_run: "set wl \<subseteq> set whiteSpace \<Longrightarrow> TrimLeft (concat wl @ s) = TrimLeft s"
proof (induction wl)
  case Nil
  then show ?case by simp
next
  case (Cons w wl)
  then have "leadingSpace (w @ concat wl @ s) = Some w"
    by (simp add: leadingSpace_append)
  then have "TrimLeft (w @ concat wl @ s) = TrimLeft (concat wl @ s)"
    by (subst TrimLeft.simps) simp
  with Cons show ?case by simp
qed

lemma TrimLeft_decompose: "\<exists>wl. set wl \<subseteq> set whiteSpace \<and> s = concat wl @ TrimLeft s"
proof (induction s rule: TrimLeft.induct)
  case (1 s)
  show ?case
  proof (cases "leadingSpace s")
    case None
    then have "TrimLeft s = s" by (subst TrimLeft.simps) simp
    then have "set [] \<subseteq> set whiteSpace \<and> s = concat [] @ TrimLeft s" by simp
    then show ?thesis by blast
  next
    case (Some w)
    then have w: "w \<in> set whiteSpace" and s: "s = w @ drop (length w) s"
      using leadingSpace_mem by blast+
    from "1" [OF Some] obtain wl where wl: "set wl \<subseteq> set whiteSpace"
      and d: "drop (length w) s = concat wl @ TrimLeft (drop (length w) s)"
      by blast
    have t: "TrimLeft s = TrimLeft (drop (length w) s)"
      using Some by (subst TrimLeft.simps) simp
    have "s = concat (w # wl) @ TrimLeft s"
      using s d t by (metis append.assoc concat.simps(2))
    moreover have "set (w # wl) \<subseteq> set whiteSpace"
      using w wl by simp
    ultimately show ?thesis by blast
  qed
qed

lemma TrimRight_prefix: "\<exists>suf. s = TrimRight s @ suf"
proof (induction s rule: TrimRight.induct)
  case (1 s)
  show ?case
  proof (cases "trailingSpace s")
    case None
    then have "TrimRight s = s" by (subst TrimRight.simps) simp
    then show ?thesis by simp
  next
    case (Some w)
    then have s: "s = take (length s - length w) s @ w"
      using trailingSpace_mem by blast
    from "1" [OF Some] obtain suf where
      "take (length s - length w) s = TrimRight (take (length s - length w) s) @ suf"
      by blast
    moreover have "TrimRight s = TrimRight (take (length s - length w) s)"
      using Some by (subst TrimRight.simps) simp
    ultimately have "s = TrimRight s @ (suf @ w)"
      using s by (metis append.assoc)
    then show ?thesis by blast
  qed
qed

lemma starts_HTTP_append:
  assumes "starts_HTTP s"
  shows "starts_HTTP (s @ t)"
proof -
  from assms obtain h t' u p rest where
    s: "s = h # t' # u # p # CHR ''/'' # rest"
    and l: "h = CHR ''H'' \<or> h = CHR ''h''" "t' = CHR ''T'' \<or> t' = CHR ''t''"
      "u = CHR ''T'' \<or> u = CHR ''t''" "p = CHR ''P'' \<or> p = CHR ''p''"
    unfolding starts_HTTP_def by blast
  have "s @ t = h # t' # u # p # CHR ''/'' # (rest @ t)"
    by (simp add: s)
  with l show ?thesis
    unfolding starts_HTTP_def by blast
qed

lemma H_no_leadingSpace: "leadingSpace (CHR ''H'' # s) = None"
  unfolding leadingSpace_def whiteSpace_def
  by (simp add: HasPrefix_Cons HasPrefix_Nil)

lemma h_no_leadingSpace: "leadingSpace (CHR ''h'' # s) = None"
  unfolding leadingSpace_def whiteSpace_def
  by (simp add: HasPrefix_Cons HasPrefix_Nil)

lemma starts_HTTP_no_leadingSpace:
  assumes "starts_HTTP s"
  shows "leadingSpace s = None"
proof -
  from assms obtain h rest where "s = h # rest" and "h = CHR ''H'' \<or> h = CHR ''h''"
    unfolding starts_HTTP_def by blast
  then show ?thesis
    by (auto simp: H_no_leadingSpace h_no_leadingSpace)
qed

lemma white_not_in_HTTP:
  assumes "w \<in> set whiteSpace" and "starts_HTTP (s' @ w)"
  shows "starts_HTTP s'"
proof -
  from assms(2) obtain h t u p rest where
    s: "s' @ w = h # t # u # p # CHR ''/'' # rest"
    and l: "h = CHR ''H'' \<or> h = CHR ''h''" "t = CHR ''T'' \<or> t = CHR ''t''"
      "u = CHR ''T'' \<or> u = CHR ''t''" "p = CHR ''P'' \<or> p = CHR ''p''"
    unfolding starts_HTTP_def by blast
  obtain c cs where w: "w = c # cs"
    using whiteSpace_nonempty [OF assms(1)] by (cases w) auto
  have nc: "c \<noteq> CHR ''H'' \<and> c \<noteq> CHR ''h'' \<and> c \<noteq> CHR ''T'' \<and> c \<noteq> CHR ''t''
      \<and> c \<noteq> CHR ''P'' \<and> c \<noteq> CHR ''p'' \<and> c \<noteq> CHR ''/''"
    using whiteSpace_first_byte assms(1) w unfolding list_all_iff by blast
  have c: "(h # t # u # p # CHR ''/'' # rest) ! length s' = c"
    using s w by (metis nth_append_length)
  have long: "5 \<le> length s'"
  proof (rule ccontr)
    assume "\<not> 5 \<le> length s'"
    then have "length s' = 0 \<or> length s' = 1 \<or> length s' = 2 \<or> length s' = 3
        \<or> length s' = 4"
      by arith
    then have "c = h \<or> c = t \<or> c = u \<or> c = p \<or> c = CHR ''/''"
      using c by (elim disjE) simp_all
    with l nc show False by blast
  qed
  have "s' = take (length s') (s' @ w)"
    by simp
  also have "\<dots> = take (length s') (h # t # u # p # CHR ''/'' # rest)"
    by (simp only: s)
  finally have s': "s' = take (length s') (h # t # u # p # CHR ''/'' # rest)" .
  from long obtain k where "length s' = 5 + k"
    using le_iff_add by blast
  then have k: "length s' = Suc (Suc (Suc (Suc (Suc k))))"
    by simp
  have "s' = h # t # u # p # CHR ''/'' # take k rest"
    by (subst s') (simp only: k take_Suc_Cons)
  with l show ?thesis
    unfolding starts_HTTP_def by blast
qed

lemma starts_HTTP_TrimRight: "starts_HTTP s \<Longrightarrow> starts_HTTP (TrimRight s)"
proof (induction s rule: TrimRight.induct)
  case (1 s)
  show ?case
  proof (cases "trailingSpace s")
    case None
    then have "TrimRight s = s" by (subst TrimRight.simps) simp
    with "1.prems" show ?thesis by simp
  next
    case (Some w)
    then have w: "w \<in> set whiteSpace" and s: "s = take (length s - length w) s @ w"
      using trailingSpace_mem by blast+
    from "1.prems" s have "starts_HTTP (take (length s - length w) s @ w)"
      by simp
    with w have "starts_HTTP (take (length s - length w) s)"
      by (rule white_not_in_HTTP)
    then have "starts_HTTP (TrimRight (take (length s - length w) s))"
      by (rule "1.IH" [OF Some])
    moreover have "TrimRight s = TrimRight (take (length s - length w) s)"
      using Some by (subst TrimRight.simps) simp
    ultimately show ?thesis by simp
  qed
qed

lemma starts_HTTP_TrimSpace:
  "starts_HTTP (TrimSpace L) \<longleftrightarrow> (\<exists>ws x. white_run ws \<and> starts_HTTP x \<and> L = ws @ x)"
proof
  assume a: "starts_HTTP (TrimSpace L)"
  obtain suf where "TrimLeft L = TrimRight (TrimLeft L) @ suf"
    using TrimRight_prefix by blast
  with a have "starts_HTTP (TrimLeft L)"
    unfolding TrimSpace_def by (metis starts_HTTP_append)
  moreover obtain wl where "set wl \<subseteq> set whiteSpace" and "L = concat wl @ TrimLeft L"
    using TrimLeft_decompose by blast
  ultimately show "\<exists>ws x. white_run ws \<and> starts_HTTP x \<and> L = ws @ x"
    unfolding white_run_def by blast
next
  assume "\<exists>ws x. white_run ws \<and> starts_HTTP x \<and> L = ws @ x"
  then obtain wl x where wl: "set wl \<subseteq> set whiteSpace" and x: "starts_HTTP x"
    and L: "L = concat wl @ x"
    unfolding white_run_def by blast
  have "TrimLeft L = TrimLeft x"
    unfolding L using wl by (rule TrimLeft_white_run)
  also have "\<dots> = x"
    using starts_HTTP_no_leadingSpace [OF x] by (subst TrimLeft.simps) simp
  finally show "starts_HTTP (TrimSpace L)"
    unfolding TrimSpace_def using x by (simp add: starts_HTTP_TrimRight)
qed


lemma ex_regroup:
  "(\<exists>ws x. (\<exists>wl. A wl \<and> ws = f wl) \<and> (\<exists>h t u p rest. x = g h t u p rest \<and> P h t u p)
      \<and> L = ws @ x)
   \<longleftrightarrow> (\<exists>wl h t u p rest. A wl \<and> L = f wl @ g h t u p rest \<and> P h t u p)"
  by blast

lemma HasPrefix_ToUpper_starts_HTTP: "HasPrefix (ToUpper s) ''HTTP/'' \<longleftrightarrow> starts_HTTP s"
  unfolding starts_HTTP_def by (rule HasPrefix_ToUpper_HTTP)

text \<open>
  Claim C8. When the dial, the write and the read of the first line succeed and the
  line read is \<open>L\<close>, \<open>IsHTTP\<close> returns true if and only if \<open>L\<close>, trimmed of white space
  and in upper case, has the prefix \<open>HTTP/\<close>. That is: the trimmed line starts with the
  letters \<open>h\<close>, \<open>t\<close>, \<open>t\<close>, \<open>p\<close>, each in either case, and a slash; and that is: \<open>L\<close>
  itself is a run of white-space runes, possibly empty, followed by these five bytes
  and anything.
\<close>

theorem IsHTTP_first_line:
  assumes "DialTimeout nw (JoinHostPort host (Itoa port)) = Inr c"
    and "Write c IsHTTP_request = None"
    and "ReadString (stream c IsHTTP_request) (stream_end c) (CHR 0x0A) = (L, None)"
  shows "(IsHTTP nw host port \<longleftrightarrow> HasPrefix (ToUpper (TrimSpace L)) ''HTTP/'')
       \<and> (IsHTTP nw host port \<longleftrightarrow>
            (\<exists>h t u p rest. TrimSpace L = h # t # u # p # CHR ''/'' # rest
               \<and> (h = CHR ''H'' \<or> h = CHR ''h'') \<and> (t = CHR ''T'' \<or> t = CHR ''t'')
               \<and> (u = CHR ''T'' \<or> u = CHR ''t'') \<and> (p = CHR ''P'' \<or> p = CHR ''p'')))
       \<and> (IsHTTP nw host port \<longleftrightarrow>
            (\<exists>wl h t u p rest. set wl \<subseteq> set whiteSpace
               \<and> L = concat wl @ h # t # u # p # CHR ''/'' # rest
               \<and> (h = CHR ''H'' \<or> h = CHR ''h'') \<and> (t = CHR ''T'' \<or> t = CHR ''t'')
               \<and> (u = CHR ''T'' \<or> u = CHR ''t'') \<and> (p = CHR ''P'' \<or> p = CHR ''p'')))"
proof -
  have 1: "IsHTTP nw host port \<longleftrightarrow> HasPrefix (ToUpper (TrimSpace L)) ''HTTP/''"
    using assms by (simp add: IsHTTP_def IsHTTP_request_def)
  have 2: "HasPrefix (ToUpper (TrimSpace L)) ''HTTP/'' \<longleftrightarrow>
        (\<exists>h t u p rest. TrimSpace L = h # t # u # p # CHR ''/'' # rest
           \<and> (h = CHR ''H'' \<or> h = CHR ''h'') \<and> (t = CHR ''T'' \<or> t = CHR ''t'')
           \<and> (u = CHR ''T'' \<or> u = CHR ''t'') \<and> (p = CHR ''P'' \<or> p = CHR ''p''))"
    by (rule HasPrefix_ToUpper_HTTP)
  have "HasPrefix (ToUpper (TrimSpace L)) ''HTTP/'' \<longleftrightarrow>
        (\<exists>ws x. white_run ws \<and> starts_HTTP x \<and> L = ws @ x)"
    by (simp only: HasPrefix_ToUpper_starts_HTTP starts_HTTP_TrimSpace)
  also have "\<dots> \<longleftrightarrow>
        (\<exists>wl h t u p rest. set wl \<subseteq> set whiteSpace
           \<and> L = concat wl @ h # t # u # p # CHR ''/'' # rest
           \<and> (h = CHR ''H'' \<or> h = CHR ''h'') \<and> (t = CHR ''T'' \<or> t = CHR ''t'')
           \<and> (u = CHR ''T'' \<or> u = CHR ''t'') \<and> (p = CHR ''P'' \<or> p = CHR ''p''))"
    unfolding white_run_def starts_HTTP_def
    by (rule ex_regroup [of "\<lambda>wl. set wl \<subseteq> set whiteSpace" concat
          "\<lambda>h t u p rest. h # t # u # p # CHR ''/'' # rest"
          "\<lambda>h t u p. (h = CHR ''H'' \<or> h = CHR ''h'') \<and> (t = CHR ''T'' \<or> t = CHR ''t'')
               \<and> (u = CHR ''T'' \<or> u = CHR ''t'') \<and> (p = CHR ''P'' \<or> p = CHR ''p'')"])
  finally have 3: "HasPrefix (ToUpper (TrimSpace L)) ''HTTP/'' \<longleftrightarrow>
        (\<exists>wl h t u p rest. set wl \<subseteq> set whiteSpace
           \<and> L = concat wl @ h # t # u # p # CHR ''/'' # rest
           \<and> (h = CHR ''H'' \<or> h = CHR ''h'') \<and> (t = CHR ''T'' \<or> t = CHR ''t'')
           \<and> (u = CHR ''T'' \<or> u = CHR ''t'') \<and> (p = CHR ''P'' \<or> p = CHR ''p''))" .
  from 1 2 3 show ?thesis by (simp only:)
qed

text \<open>
  The theorem at a server that answers \<open>http/1.0 200 OK\<close>, at one that answers
  \<open>HTTP/1.1 404\<close> after two spaces, both classified as HTTP, and at one that greets with
  \<open>SSH-2.0-OpenSSH_9.6\<close>, classified as not HTTP.
\<close>

theorem IsHTTP_first_line_witness:
  "IsHTTP (serving (''http/1.0 200 OK'' @ CRLF @ ''Server: x'' @ CRLF)) ''localhost'' 8080
   \<and> HasPrefix (ToUpper (TrimSpace (''http/1.0 200 OK'' @ CRLF))) ''HTTP/''
   \<and> IsHTTP (serving (''  HTTP/1.1 404'' @ CRLF)) ''localhost'' 8080
   \<and> TrimSpace (''  HTTP/1.1 404'' @ CRLF) = ''HTTP/1.1 404''
   \<and> \<not> IsHTTP (serving (''SSH-2.0-OpenSSH_9.6'' @ CRLF)) ''localhost'' 22
   \<and> \<not> HasPrefix (ToUpper (TrimSpace (''SSH-2.0-OpenSSH_9.6'' @ CRLF))) ''HTTP/''"
proof -
  let ?a = "''http/1.0 200 OK'' @ CRLF @ ''Server: x'' @ CRLF"
  let ?b = "''  HTTP/1.1 404'' @ CRLF"
  let ?s = "''SSH-2.0-OpenSSH_9.6'' @ CRLF"
  have da: "DialTimeout (serving ?a) (JoinHostPort ''localhost'' (Itoa 8080)) = Inr (server ?a)"
    by (simp add: DialTimeout_def serving_def)
  have wa: "Write (server ?a) IsHTTP_request = None"
    by (simp add: server_def)
  have ra: "ReadString (stream (server ?a) IsHTTP_request) (stream_end (server ?a)) (CHR 0x0A)
             = (''http/1.0 200 OK'' @ CRLF, None)"
    by (simp add: server_def ReadString_def CRLF_def)
  have pa: "HasPrefix (ToUpper (TrimSpace (''http/1.0 200 OK'' @ CRLF))) ''HTTP/''"
    by (simp add: TrimSpace_def TrimLeft.simps TrimRight.simps leadingSpace_def
        trailingSpace_def whiteSpace_def HasPrefix_def CRLF_def ToUpper_def ToUpperByte_def
        char_of_eq_iff)
  have db: "DialTimeout (serving ?b) (JoinHostPort ''localhost'' (Itoa 8080)) = Inr (server ?b)"
    by (simp add: DialTimeout_def serving_def)
  have wb: "Write (server ?b) IsHTTP_request = None"
    by (simp add: server_def)
  have rb: "ReadString (stream (server ?b) IsHTTP_request) (stream_end (server ?b)) (CHR 0x0A)
             = (?b, None)"
    by (simp add: server_def ReadString_def CRLF_def)
  have tb: "TrimSpace ?b = ''HTTP/1.1 404''"
    by (simp add: TrimSpace_def TrimLeft.simps TrimRight.simps leadingSpace_def
        trailingSpace_def whiteSpace_def HasPrefix_def CRLF_def)
  have pb: "HasPrefix (ToUpper ''HTTP/1.1 404'') ''HTTP/''"
    by (simp add: HasPrefix_def ToUpper_def ToUpperByte_def char_of_eq_iff)
  have ds: "DialTimeout (serving ?s) (JoinHostPort ''localhost'' (Itoa 22)) = Inr (server ?s)"
    by (simp add: DialTimeout_def serving_def)
  have ws: "Write (server ?s) IsHTTP_request = None"
    by (simp add: server_def)
  have rs: "ReadString (stream (server ?s) IsHTTP_request) (stream_end (server ?s)) (CHR 0x0A)
             = (?s, None)"
    by (simp add: server_def ReadString_def CRLF_def)
  have ps: "\<not> HasPrefix (ToUpper (TrimSpace ?s)) ''HTTP/''"
    by (simp add: TrimSpace_def TrimLeft.simps TrimRight.simps leadingSpace_def
        trailingSpace_def whiteSpace_def HasPrefix_def CRLF_def ToUpper_def ToUpperByte_def
        char_of_eq_iff)
  have a: "IsHTTP (serving ?a) ''localhost'' 8080"
    using IsHTTP_first_line [OF da wa ra, THEN conjunct1] pa by (simp only:)
  have b: "IsHTTP (serving ?b) ''localhost'' 8080"
    using IsHTTP_first_line [OF db wb rb, THEN conjunct1, unfolded tb] pb by (simp only:)
  have s: "\<not> IsHTTP (serving ?s) ''localhost'' 22"
    using IsHTTP_first_line [OF ds ws rs, THEN conjunct1] ps by (simp only: simp_thms)
  from a pa b tb s ps show ?thesis by (simp only: simp_thms)
qed

text \<open>
  Claim C9. \<open>Probe\<close> and \<open>IsHTTP\<close> classify a first line \<open>L\<close> alike: the field
  \<open>IsHTTP\<close> of the result of \<open>Probe\<close> is the boolean \<open>IsHTTP\<close> returns for the same
  line, the prefix test on the trimmed line in upper case, and the field \<open>Response\<close> is
  the trimmed line.
\<close>

theorem Probe_same_classifier:
  assumes "DialTimeout nw1 (JoinHostPort host1 (Itoa port1)) = Inr c1"
    and "Write c1 IsHTTP_request = None"
    and "ReadString (stream c1 IsHTTP_request) (stream_end c1) (CHR 0x0A) = (L, None)"
    and "DialTimeout nw2 (JoinHostPort host2 (Itoa port2)) = Inr c2"
    and "Write c2 Probe_request = None"
    and "ReadString (stream c2 Probe_request) (stream_end c2) (CHR 0x0A) = (L, None)"
  shows "pr_IsHTTP (Probe nw2 host2 port2) = IsHTTP nw1 host1 port1
       \<and> pr_IsHTTP (Probe nw2 host2 port2) = HasPrefix (ToUpper (TrimSpace L)) ''HTTP/''
       \<and> pr_Response (Probe nw2 host2 port2) = TrimSpace L"
  using assms by (simp add: IsHTTP_def Probe_def IsHTTP_request_def Probe_request_def Let_def)

theorem Probe_same_classifier_witness:
  "pr_IsHTTP (Probe (serving (''  HTTP/1.1 404'' @ CRLF)) ''127.0.0.1'' 3000)
     = IsHTTP (serving (''  HTTP/1.1 404'' @ CRLF @ ''more'')) ''::1'' 80
   \<and> pr_IsHTTP (Probe (serving (''  HTTP/1.1 404'' @ CRLF)) ''127.0.0.1'' 3000)
   \<and> pr_Response (Probe (serving (''  HTTP/1.1 404'' @ CRLF)) ''127.0.0.1'' 3000) = ''HTTP/1.1 404''"
proof -
  let ?b1 = "''  HTTP/1.1 404'' @ CRLF @ ''more''"
  let ?b2 = "''  HTTP/1.1 404'' @ CRLF"
  have d1: "DialTimeout (serving ?b1) (JoinHostPort ''::1'' (Itoa 80)) = Inr (server ?b1)"
    by (simp add: DialTimeout_def serving_def)
  have w1: "Write (server ?b1) IsHTTP_request = None"
    by (simp add: server_def)
  have r1: "ReadString (stream (server ?b1) IsHTTP_request) (stream_end (server ?b1)) (CHR 0x0A)
              = (''  HTTP/1.1 404'' @ CRLF, None)"
    by (simp add: server_def ReadString_def CRLF_def)
  have d2: "DialTimeout (serving ?b2) (JoinHostPort ''127.0.0.1'' (Itoa 3000)) = Inr (server ?b2)"
    by (simp add: DialTimeout_def serving_def)
  have w2: "Write (server ?b2) Probe_request = None"
    by (simp add: server_def)
  have r2: "ReadString (stream (server ?b2) Probe_request) (stream_end (server ?b2)) (CHR 0x0A)
              = (''  HTTP/1.1 404'' @ CRLF, None)"
    by (simp add: server_def ReadString_def CRLF_def)
  have t: "TrimSpace (''  HTTP/1.1 404'' @ CRLF) = ''HTTP/1.1 404''"
    by (simp add: TrimSpace_def TrimLeft.simps TrimRight.simps leadingSpace_def
        trailingSpace_def whiteSpace_def HasPrefix_def CRLF_def)
  have u: "HasPrefix (ToUpper ''HTTP/1.1 404'') ''HTTP/''"
    by (simp add: HasPrefix_def ToUpper_def ToUpperByte_def char_of_eq_iff)
  from Probe_same_classifier [OF d1 w1 r1 d2 w2 r2, unfolded t] u show ?thesis by blast
qed

text \<open>
  Claim C10. When the dial fails, or the write fails, or the read of the first line
  fails, \<open>Probe\<close> returns \<open>ProbeResult{IsHTTP: false, Response: ""}\<close>; a result with a
  non-empty \<open>Response\<close> comes from a line that was read, and is that line trimmed.
\<close>

theorem Probe_failure_paths:
  "(\<forall>e. DialTimeout nw (JoinHostPort host (Itoa port)) = Inl e \<longrightarrow>
        Probe nw host port = \<lparr>pr_IsHTTP = False, pr_Response = []\<rparr>)
   \<and> (\<forall>c e. DialTimeout nw (JoinHostPort host (Itoa port)) = Inr c
          \<and> Write c Probe_request = Some e \<longrightarrow>
        Probe nw host port = \<lparr>pr_IsHTTP = False, pr_Response = []\<rparr>)
   \<and> (\<forall>c l e. DialTimeout nw (JoinHostPort host (Itoa port)) = Inr c
          \<and> Write c Probe_request = None
          \<and> ReadString (stream c Probe_request) (stream_end c) (CHR 0x0A) = (l, Some e) \<longrightarrow>
        Probe nw host port = \<lparr>pr_IsHTTP = False, pr_Response = []\<rparr>)
   \<and> (pr_Response (Probe nw host port) \<noteq> [] \<longrightarrow>
        (\<exists>c l. DialTimeout nw (JoinHostPort host (Itoa port)) = Inr c
          \<and> Write c Probe_request = None
          \<and> ReadString (stream c Probe_request) (stream_end c) (CHR 0x0A) = (l, None)
          \<and> pr_Response (Probe nw host port) = TrimSpace l))"
  by (auto simp: Probe_def Probe_request_def Let_def split: sum.splits option.splits prod.splits)

theorem Probe_failure_paths_witness:
  "Probe refusing ''localhost'' 80 = \<lparr>pr_IsHTTP = False, pr_Response = []\<rparr>
   \<and> Probe (\<lambda>addr. Inr broken) ''localhost'' 80 = \<lparr>pr_IsHTTP = False, pr_Response = []\<rparr>
   \<and> Probe (serving ''HTTP/1.1 200 OK'') ''localhost'' 80 = \<lparr>pr_IsHTTP = False, pr_Response = []\<rparr>
   \<and> pr_Response (Probe (serving (''HTTP/1.1 200 OK'' @ CRLF)) ''localhost'' 80) \<noteq> []
   \<and> (\<exists>c l. DialTimeout (serving (''HTTP/1.1 200 OK'' @ CRLF)) (JoinHostPort ''localhost'' (Itoa 80)) = Inr c
          \<and> Write c Probe_request = None
          \<and> ReadString (stream c Probe_request) (stream_end c) (CHR 0x0A) = (l, None)
          \<and> pr_Response (Probe (serving (''HTTP/1.1 200 OK'' @ CRLF)) ''localhost'' 80) = TrimSpace l)"
proof -
  let ?addr = "JoinHostPort ''localhost'' (Itoa 80)"
  have d: "DialTimeout refusing ?addr = Inl ''connection refused''"
    by (simp add: DialTimeout_def refusing_def)
  have w: "DialTimeout (\<lambda>addr. Inr broken) ?addr = Inr broken
           \<and> Write broken Probe_request = Some ''broken pipe''"
    by (simp add: DialTimeout_def broken_def)
  have r: "DialTimeout (serving ''HTTP/1.1 200 OK'') ?addr = Inr (server ''HTTP/1.1 200 OK'')
           \<and> Write (server ''HTTP/1.1 200 OK'') Probe_request = None
           \<and> ReadString (stream (server ''HTTP/1.1 200 OK'') Probe_request)
                (stream_end (server ''HTTP/1.1 200 OK'')) (CHR 0x0A) = (''HTTP/1.1 200 OK'', Some ''EOF'')"
    by (simp add: DialTimeout_def serving_def server_def ReadString_def)
  have ok: "pr_Response (Probe (serving (''HTTP/1.1 200 OK'' @ CRLF)) ''localhost'' 80) \<noteq> []"
    by code_simp
  note th = Probe_failure_paths
  from th [of refusing "''localhost''" 80] d
  have 1: "Probe refusing ''localhost'' 80 = \<lparr>pr_IsHTTP = False, pr_Response = []\<rparr>"
    by blast
  from th [of "\<lambda>addr. Inr broken" "''localhost''" 80] w
  have 2: "Probe (\<lambda>addr. Inr broken) ''localhost'' 80 = \<lparr>pr_IsHTTP = False, pr_Response = []\<rparr>"
    by blast
  from th [of "serving ''HTTP/1.1 200 OK''" "''localhost''" 80] r
  have 3: "Probe (serving ''HTTP/1.1 200 OK'') ''localhost'' 80 = \<lparr>pr_IsHTTP = False, pr_Response = []\<rparr>"
    by blast
  from th [of "serving (''HTTP/1.1 200 OK'' @ CRLF)" "''localhost''" 80] ok
  have 4: "\<exists>c l. DialTimeout (serving (''HTTP/1.1 200 OK'' @ CRLF)) ?addr = Inr c
          \<and> Write c Probe_request = None
          \<and> ReadString (stream c Probe_request) (stream_end c) (CHR 0x0A) = (l, None)
          \<and> pr_Response (Probe (serving (''HTTP/1.1 200 OK'' @ CRLF)) ''localhost'' 80) = TrimSpace l"
    by blast
  from 1 2 3 ok 4 show ?thesis by blast
qed

end
